theory Spec2Isabelle
  imports Main "HOL-Library.Word" "HOL-Library.Monad_Syntax" "HOL-Library.Log_Nat"
begin

unbundle bit_operations_syntax

section \<open>Machine integers of the C++ source\<close>

text \<open>
  A mask of the unsigned type \<open>T\<close> is an \<open>'a word\<close>; its width \<open>LENGTH('a)\<close> is the
  number of bits of \<open>T\<close>. The index is stored in an \<open>int8_t\<close>, an \<open>8 word\<close> read with
  \<open>sint\<close>. Operations whose behaviour C++ leaves undefined, and initialisations that
  C++ rejects, return \<open>None\<close>.
\<close>

type_synonym int8_t = "8 word"

text \<open>
  The width of \<open>int\<close>, the type every narrower operand is promoted to, and
  \<open>sizeof(T)\<close> in bytes.
\<close>

definition int_bits :: nat where
  "int_bits = 32"

definition sizeof :: "'a::len itself \<Rightarrow> nat" where
  "sizeof T = LENGTH('a) div 8"

text \<open>
  List-initialisation of an \<open>int8_t\<close> from a constant: a value that does not fit is a
  narrowing conversion, which is ill-formed.
\<close>

definition narrow_int8 :: "int \<Rightarrow> int8_t option" where
  "narrow_int8 v = (if - 128 \<le> v \<and> v \<le> 127 then Some (word_of_int v) else None)"

text \<open>\<open>static_cast<int8_t>\<close> and assignment to an \<open>int8_t\<close>: reduction modulo \<open>2^8\<close>.\<close>

definition static_cast_int8 :: "int \<Rightarrow> int8_t" where
  "static_cast_int8 v = word_of_int v"

text \<open>
  \<open>msk >>= n\<close> and \<open>msk <<= n\<close> on a mask of type \<open>T\<close>. The mask is promoted to \<open>int\<close>
  when \<open>T\<close> is narrower than \<open>int\<close>; the shift is undefined unless the count lies in
  \<open>[0, width of the promoted type)\<close>, and a left shift of the (signed) promoted value
  is undefined unless the result fits the unsigned counterpart of \<open>int\<close>. The result
  is converted back to \<open>T\<close>.
\<close>

definition shift_right :: "'a::len word \<Rightarrow> int \<Rightarrow> 'a word option" where
  "shift_right msk n =
     (if 0 \<le> n \<and> n < int (max int_bits LENGTH('a))
      then Some (drop_bit (nat n) msk) else None)"

definition shift_left :: "'a::len word \<Rightarrow> int \<Rightarrow> 'a word option" where
  "shift_left msk n =
     (if 0 \<le> n \<and> n < int (max int_bits LENGTH('a))
         \<and> (int_bits \<le> LENGTH('a) \<or> uint msk * 2 ^ nat n < 2 ^ int_bits)
      then Some (push_bit (nat n) msk) else None)"

section \<open>The bit-scan primitives\<close>

text \<open>
  The headers \<open>ctz.h\<close>, \<open>log2.h\<close>, \<open>popcount.h\<close> and \<open>is_power_of_two.h\<close> that
  define the primitives below are not part of the sources at hand; each primitive is
  modelled from the spec. None of them has a specified result on a zero mask
  (``callers must guard''). The code calls the scans on nonzero masks only, and their
  missing result is the value \<open>None\<close>; it does call the logarithm on the zero mask,
  so the result of \<open>log2(0)\<close> is kept as a parameter of the model.
\<close>

text \<open>
  Modelled from the spec: \<open>ctz\<close> of the missing \<open>ctz.h\<close>, count-trailing-zeros, the
  bit offset of the lowest set bit of a nonzero word.
\<close>

definition ctz :: "'a::len word \<Rightarrow> int option" where
  "ctz msk =
     (if msk = 0 then None
      else Some (int (length (takeWhile Not (map (bit msk) [0..<LENGTH('a)])))))"

text \<open>
  Modelled from the spec: \<open>clz\<close> of the missing headers, count-leading-zeros of a
  nonzero word, counted from the most significant bit of the mask type.
\<close>

definition clz :: "'a::len word \<Rightarrow> int option" where
  "clz msk =
     (if msk = 0 then None
      else Some (int (length (takeWhile Not (rev (map (bit msk) [0..<LENGTH('a)]))))))"


text \<open>
  Modelled from the spec: \<open>_popcount\<close> of the missing \<open>popcount.h\<close>, the population
  count, the number of bits set to 1.
\<close>

definition popcount :: "'a::len word \<Rightarrow> nat" where
  "popcount msk = length (filter (bit msk) [0..<LENGTH('a)])"

text \<open>
  Modelled from the spec: \<open>is_power_of_two\<close> of the missing \<open>is_power_of_two.h\<close>, the
  test \<open>mask != 0 && (mask & (mask-1)) == 0\<close>.
\<close>

definition is_power_of_two :: "'a::len word \<Rightarrow> bool" where
  "is_power_of_two msk \<longleftrightarrow> msk \<noteq> 0 \<and> msk AND (msk - 1) = 0"

section \<open>Index\<close>

record IndexPOD =
  m_index :: int8_t

text \<open>
  \<open>IndexPOD\<close> and the class \<open>Index\<close> derived from it hold the one field \<open>m_index\<close>.
  The constants \<open>index_pre_begin\<close>, \<open>index_begin\<close> and \<open>index_end<T> = { 8 * sizeof(T) }\<close>.
\<close>

definition index_pre_begin :: IndexPOD where
  "index_pre_begin = \<lparr>m_index = - 1\<rparr>"

definition index_begin :: IndexPOD where
  "index_begin = \<lparr>m_index = 0\<rparr>"

definition index_end :: "'a::len itself \<Rightarrow> IndexPOD option" where
  "index_end T = map_option (\<lambda>v. \<lparr>m_index = v\<rparr>) (narrow_int8 (int (8 * sizeof T)))"

text \<open>
  \<open>Index::next_bit_in(T mask)\<close> and \<open>Index::prev_bit_in(T mask)\<close>, returning the
  updated index. \<open>++m_index\<close>, \<open>+=\<close> and \<open>-=\<close> compute in \<open>int\<close> and store back into the
  \<open>int8_t\<close>.
\<close>

definition next_bit_in :: "IndexPOD \<Rightarrow> 'a::len word \<Rightarrow> IndexPOD option" where
  "next_bit_in idx msk = do {
     e \<leftarrow> index_end TYPE('a);
     let N = m_index e;
     let i = m_index idx + 1;
     if i \<noteq> N then do {
       msk' \<leftarrow> shift_right msk (sint i);
       if msk' = 0 then Some (idx\<lparr>m_index := N\<rparr>)
       else do {
         c \<leftarrow> ctz msk';
         Some (idx\<lparr>m_index := static_cast_int8 (sint i + c)\<rparr>)
       }
     }
     else Some (idx\<lparr>m_index := i\<rparr>)
   }"

definition prev_bit_in :: "IndexPOD \<Rightarrow> 'a::len word \<Rightarrow> IndexPOD option" where
  "prev_bit_in idx msk = do {
     e \<leftarrow> index_end TYPE('a);
     let N = m_index e;
     msk' \<leftarrow> shift_left msk (sint N - sint (m_index idx));
     if msk' = 0 then Some (idx\<lparr>m_index := m_index index_pre_begin\<rparr>)
     else do {
       c \<leftarrow> clz msk';
       Some (idx\<lparr>m_index := static_cast_int8 (sint (m_index idx) - (c + 1))\<rparr>)
     }
   }"

definition may_call_prev_bit_in :: "IndexPOD \<Rightarrow> bool" where
  "may_call_prev_bit_in idx \<longleftrightarrow> 0 < sint (m_index idx)"

section \<open>BitSet\<close>

record (overloaded) ('a::len) BitSetPOD =
  m_bitmask :: "'a word"

text \<open>
  \<open>index2mask\<close> is \<open>static_cast<T>(1) << i1()\<close>; \<open>reset\<close>, \<open>set\<close>, \<open>flip\<close> and \<open>test\<close> are
  the overloads that take an \<open>Index\<close>, and \<open>size_bits\<close> is \<open>size()\<close>. Where an expression
  over a mask narrower than \<open>int\<close> is computed in \<open>int\<close> and converted back to \<open>T\<close>
  (\<open>m & ~k\<close>, \<open>m & -m\<close>, \<open>m & (m - 1)\<close>), the result has the bits of the same
  operation on the word, which is what the definitions use.
\<close>

definition index2mask :: "IndexPOD \<Rightarrow> 'a::len word option" where
  "index2mask i1 = shift_left 1 (sint (m_index i1))"

definition reset_index :: "'a::len BitSetPOD \<Rightarrow> IndexPOD \<Rightarrow> 'a BitSetPOD option" where
  "reset_index b i1 = do {
     k \<leftarrow> index2mask i1;
     Some (b\<lparr>m_bitmask := m_bitmask b AND NOT k\<rparr>)
   }"

definition set_index :: "'a::len BitSetPOD \<Rightarrow> IndexPOD \<Rightarrow> 'a BitSetPOD option" where
  "set_index b i1 = do {
     k \<leftarrow> index2mask i1;
     Some (b\<lparr>m_bitmask := m_bitmask b OR k\<rparr>)
   }"

definition flip_index :: "'a::len BitSetPOD \<Rightarrow> IndexPOD \<Rightarrow> 'a BitSetPOD option" where
  "flip_index b i1 = do {
     k \<leftarrow> index2mask i1;
     Some (b\<lparr>m_bitmask := m_bitmask b XOR k\<rparr>)
   }"

text \<open>
  \<open>all\<close> is \<open>!~m_bitmask\<close>: the operand of \<open>~\<close> is promoted, so for a type narrower
  than \<open>int\<close> the complement is taken on the \<open>int\<close> value of the mask.
\<close>

definition all :: "'a::len BitSetPOD \<Rightarrow> bool" where
  "all b \<longleftrightarrow>
     (if LENGTH('a) < int_bits then NOT (uint (m_bitmask b)) = 0
      else NOT (m_bitmask b) = 0)"

definition any :: "'a::len BitSetPOD \<Rightarrow> bool" where
  "any b \<longleftrightarrow> m_bitmask b \<noteq> 0"

definition none :: "'a::len BitSetPOD \<Rightarrow> bool" where
  "none b \<longleftrightarrow> m_bitmask b = 0"

definition is_single_bit :: "'a::len BitSetPOD \<Rightarrow> bool" where
  "is_single_bit b \<longleftrightarrow> is_power_of_two (m_bitmask b)"

definition size_bits :: "'a::len BitSetPOD \<Rightarrow> nat" where
  "size_bits b = sizeof TYPE('a) * 8"

definition count :: "'a::len BitSetPOD \<Rightarrow> nat" where
  "count b = popcount (m_bitmask b)"

text \<open>
  \<open>lssb()\<close> is \<open>return {m_bitmask & -m_bitmask};\<close>, a copy-list-initialisation of the
  returned BitSet from a mask. The only constructor that takes a mask,
  \<open>explicit BitSet(mask_type)\<close>, is explicit, and copy-list-initialisation must not
  select an explicit constructor: the initialisation is rejected.
  (\<open>operator*\<close> of the iterator writes \<open>BitSet<T>{...}\<close>, a direct initialisation,
  which may use that constructor.)
\<close>

definition mask_constructor_explicit :: bool where
  "mask_constructor_explicit = True"

definition copy_list_init :: "'a::len word \<Rightarrow> 'a BitSetPOD option" where
  "copy_list_init msk =
     (if mask_constructor_explicit then None else Some \<lparr>m_bitmask = msk\<rparr>)"

definition lssb :: "'a::len BitSetPOD \<Rightarrow> 'a BitSetPOD option" where
  "lssb b = copy_list_init (m_bitmask b AND - m_bitmask b)"

definition lssbi :: "'a::len BitSetPOD \<Rightarrow> IndexPOD option" where
  "lssbi b = do {
     v \<leftarrow> (if m_bitmask b \<noteq> 0 then ctz (m_bitmask b) else Some (int (size_bits b)));
     Some \<lparr>m_index = static_cast_int8 v\<rparr>
   }"


definition test_index :: "'a::len BitSetPOD \<Rightarrow> IndexPOD \<Rightarrow> bool option" where
  "test_index b i1 = do {
     k \<leftarrow> index2mask i1;
     Some (m_bitmask b AND k \<noteq> 0)
   }"

text \<open>\<open>operator|=\<close> with another BitSet.\<close>

definition or_assign :: "'a::len BitSetPOD \<Rightarrow> 'a BitSetPOD \<Rightarrow> 'a BitSetPOD" where
  "or_assign b m1 = b\<lparr>m_bitmask := m_bitmask b OR m_bitmask m1\<rparr>"

section \<open>The iterator\<close>

text \<open>
  \<open>const_iterator<T>\<close> with \<open>begin()\<close>, \<open>end()\<close>, \<open>operator==\<close>, \<open>operator!=\<close>,
  \<open>operator++\<close> and \<open>operator*\<close>.
\<close>

record (overloaded) ('a::len) const_iterator =
  m_mask :: "'a word"

definition begin_iter :: "'a::len BitSetPOD \<Rightarrow> 'a const_iterator" where
  "begin_iter b = \<lparr>m_mask = m_bitmask b\<rparr>"

definition end_iter :: "'a::len BitSetPOD \<Rightarrow> 'a const_iterator" where
  "end_iter b = \<lparr>m_mask = 0\<rparr>"

definition iter_eq :: "'a::len const_iterator \<Rightarrow> 'a const_iterator \<Rightarrow> bool" where
  "iter_eq it1 it2 \<longleftrightarrow> m_mask it1 = m_mask it2"

definition iter_ne :: "'a::len const_iterator \<Rightarrow> 'a const_iterator \<Rightarrow> bool" where
  "iter_ne it1 it2 \<longleftrightarrow> m_mask it1 \<noteq> m_mask it2"

definition iter_incr :: "'a::len const_iterator \<Rightarrow> 'a const_iterator" where
  "iter_incr it = it\<lparr>m_mask := m_mask it AND (m_mask it - 1)\<rparr>"

definition iter_deref :: "'a::len const_iterator \<Rightarrow> 'a BitSetPOD" where
  "iter_deref it = \<lparr>m_bitmask = m_mask it AND - m_mask it\<rparr>"

text \<open>
  The loop \<open>for (it = begin(); it != end(); ++it)\<close> collecting \<open>*it\<close>, started at any
  iterator; \<open>end()\<close> is the iterator with mask 0.
\<close>

function iterate :: "'a::len const_iterator \<Rightarrow> 'a BitSetPOD list" where
  "iterate it =
     (if iter_ne it \<lparr>m_mask = 0\<rparr> then iter_deref it # iterate (iter_incr it) else [])"
  by pat_completeness auto
termination
proof (relation "measure (\<lambda>it. unat (m_mask it))", goal_cases)
  case 1
  show ?case by simp
next
  case (2 it)
  then have nz: "m_mask it \<noteq> 0"
    by (simp add: iter_ne_def)
  have "m_mask it AND (m_mask it - 1) \<le> m_mask it - 1"
    by (rule word_and_le1)
  moreover have "m_mask it - 1 < m_mask it"
    using nz by (simp add: word_less_nat_alt unat_minus_one unat_gt_0)
  ultimately have "m_mask it AND (m_mask it - 1) < m_mask it"
    by simp
  then show ?case
    by (simp add: iter_incr_def word_less_nat_alt)
qed

declare iterate.simps [simp del]

text \<open>The values seen by a loop from \<open>begin()\<close> to \<open>end()\<close>.\<close>

definition elements :: "'a::len BitSetPOD \<Rightarrow> 'a BitSetPOD list" where
  "elements b = iterate (begin_iter b)"

text \<open>
  The \<open>do ... while\<close> loop of \<open>to_string\<close>: \<open>result\<close> is the string buffer, \<open>p\<close> the
  position of the write iterator and \<open>bit_idx\<close> the index \<open>bit\<close>. A write past the
  buffer is undefined.
\<close>

function to_string_loop ::
  "'a::len BitSetPOD \<Rightarrow> char \<Rightarrow> char \<Rightarrow> string \<Rightarrow> nat \<Rightarrow> IndexPOD \<Rightarrow> string option" where
  "to_string_loop b zero one result p bit_idx =
     (let bit' = bit_idx\<lparr>m_index := m_index bit_idx - 1\<rparr> in
      case test_index b bit' of
        None \<Rightarrow> None
      | Some t \<Rightarrow>
          if p < length result then
            (let result' = result[p := (if t then one else zero)] in
             if bit' \<noteq> index_begin
             then to_string_loop b zero one result' (p + 1) bit'
             else Some result')
          else None)"
  by pat_completeness auto
termination
proof (relation "measure (\<lambda>(b, zero, one, result, p, bit_idx). unat (m_index bit_idx - 1))", goal_cases)
  case 1
  show ?case by simp
next
  case (2 b zero one result p bit_idx x x2 xa)
  have nz: "m_index bit_idx - 1 \<noteq> 0"
    using 2 by (cases bit_idx) (auto simp: index_begin_def)
  have "unat (m_index bit_idx - 1 - 1) = unat (m_index bit_idx - 1) - 1"
    using nz by (rule unat_minus_one)
  moreover have "0 < unat (m_index bit_idx - 1)"
    using nz unat_gt_0 by blast
  ultimately have "unat (m_index bit_idx - 1 - 1) < unat (m_index bit_idx - 1)"
    by linarith
  then show ?case using 2 by simp
qed

declare to_string_loop.simps [simp del]

definition to_string :: "'a::len BitSetPOD \<Rightarrow> char \<Rightarrow> char \<Rightarrow> string option" where
  "to_string b zero one = do {
     e \<leftarrow> index_end TYPE('a);
     to_string_loop b zero one (replicate (size_bits b) zero) 0 e
   }"

section \<open>Indices and single-bit masks\<close>

lemma sint_index_bounds: "- 128 \<le> sint (w :: int8_t) \<and> sint w \<le> 127"
  using sint_ge[of w] sint_lt[of w] by simp

lemma index2mask_valid:
  fixes i1 :: IndexPOD
  assumes "0 \<le> sint (m_index i1)" and "sint (m_index i1) < int LENGTH('a::len)"
  shows "(index2mask i1 :: 'a word option) = Some (2 ^ nat (sint (m_index i1)))"
proof -
  let ?n = "sint (m_index i1)"
  have "int_bits \<le> LENGTH('a) \<or> (2::int) ^ nat ?n < 2 ^ int_bits"
  proof (cases "int_bits \<le> LENGTH('a)")
    case False
    then have "nat ?n < int_bits" using assms by linarith
    then show ?thesis by simp
  qed simp
  then show ?thesis
    using assms by (simp add: index2mask_def shift_left_def)
qed

text \<open>
  C5. For every mask \<open>m\<close> of width \<open>N\<close> and every index \<open>i\<close> in \<open>[0, N)\<close>,
  \<open>BitSet(m).test(i)\<close> is defined and is true exactly when \<open>((m >> i) & 1) == 1\<close>.
\<close>

theorem test_index_correct:
  fixes b :: "'a::len BitSetPOD"
  assumes "0 \<le> sint (m_index i1)" and "sint (m_index i1) < int LENGTH('a)"
  shows "test_index b i1
    = Some (drop_bit (nat (sint (m_index i1))) (m_bitmask b) AND 1 = 1)"
proof -
  let ?n = "nat (sint (m_index i1))"
  have "(m_bitmask b AND 2 ^ ?n \<noteq> 0) \<longleftrightarrow> bit (m_bitmask b) ?n"
    using bit_iff_and_push_bit_not_eq_0[of "m_bitmask b" ?n] by simp
  moreover have "(drop_bit ?n (m_bitmask b) AND 1 = 1) \<longleftrightarrow> bit (m_bitmask b) ?n"
    by (simp add: bit_iff_odd_drop_bit and_one_eq odd_iff_mod_2_eq_one)
  ultimately show ?thesis
    using index2mask_valid[OF assms] by (simp add: test_index_def)
qed

theorem test_index_correct_witness:
  "0 \<le> sint (m_index \<lparr>m_index = 6\<rparr>) \<and> sint (m_index \<lparr>m_index = 6\<rparr>) < int LENGTH(8)
   \<and> test_index \<lparr>m_bitmask = 0x46 :: 8 word\<rparr> \<lparr>m_index = 6\<rparr> = Some True
   \<and> test_index \<lparr>m_bitmask = 0x46 :: 8 word\<rparr> \<lparr>m_index = 0\<rparr> = Some False"
  using test_index_correct[of "\<lparr>m_index = 6\<rparr>" "\<lparr>m_bitmask = 0x46 :: 8 word\<rparr>"]
        test_index_correct[of "\<lparr>m_index = 0\<rparr>" "\<lparr>m_bitmask = 0x46 :: 8 word\<rparr>"]
  by simp

text \<open>
  C10. For every BitSet and every valid index \<open>i\<close> in \<open>[0, N)\<close>: \<open>set(i)\<close> makes
  bit \<open>i\<close> set, \<open>reset(i)\<close> makes it clear, \<open>flip(i)\<close> inverts it, and all three
  leave every other bit position as it was.
\<close>

theorem mutators_frame:
  fixes b :: "'a::len BitSetPOD"
  assumes "0 \<le> sint (m_index i1)" and "sint (m_index i1) < int LENGTH('a)"
  shows "\<exists>s r f. set_index b i1 = Some s \<and> reset_index b i1 = Some r \<and> flip_index b i1 = Some f
     \<and> bit (m_bitmask s) (nat (sint (m_index i1)))
     \<and> \<not> bit (m_bitmask r) (nat (sint (m_index i1)))
     \<and> (bit (m_bitmask f) (nat (sint (m_index i1)))
          \<longleftrightarrow> \<not> bit (m_bitmask b) (nat (sint (m_index i1))))
     \<and> (\<forall>j. j \<noteq> nat (sint (m_index i1)) \<longrightarrow>
           (bit (m_bitmask s) j \<longleftrightarrow> bit (m_bitmask b) j)
         \<and> (bit (m_bitmask r) j \<longleftrightarrow> bit (m_bitmask b) j)
         \<and> (bit (m_bitmask f) j \<longleftrightarrow> bit (m_bitmask b) j))"
proof -
  let ?n = "nat (sint (m_index i1))"
  have n: "?n < LENGTH('a)" using assms by linarith
  have k: "\<And>j. bit ((2 :: 'a word) ^ ?n) j \<longleftrightarrow> j = ?n"
    using n by (auto simp: bit_simps)
  show ?thesis
    using index2mask_valid[OF assms]
    by (simp add: set_index_def reset_index_def flip_index_def bit_or_iff bit_and_iff
        bit_xor_iff bit_not_iff k) (auto dest: bit_imp_le_length)
qed

theorem mutators_frame_witness:
  "0 \<le> sint (m_index \<lparr>m_index = 3\<rparr>) \<and> sint (m_index \<lparr>m_index = 3\<rparr>) < int LENGTH(8)
   \<and> set_index \<lparr>m_bitmask = 0x46 :: 8 word\<rparr> \<lparr>m_index = 3\<rparr> = Some \<lparr>m_bitmask = 0x4E\<rparr>
   \<and> reset_index \<lparr>m_bitmask = 0x4E :: 8 word\<rparr> \<lparr>m_index = 3\<rparr> = Some \<lparr>m_bitmask = 0x46\<rparr>
   \<and> flip_index \<lparr>m_bitmask = 0x46 :: 8 word\<rparr> \<lparr>m_index = 3\<rparr> = Some \<lparr>m_bitmask = 0x4E\<rparr>
   \<and> (\<exists>s. set_index \<lparr>m_bitmask = 0x46 :: 8 word\<rparr> \<lparr>m_index = 3\<rparr> = Some s
        \<and> bit (m_bitmask s) 3
        \<and> (\<forall>j. j \<noteq> 3 \<longrightarrow> bit (m_bitmask s) j = bit (0x46 :: 8 word) j))"
proof -
  have h1: "0 \<le> sint (m_index \<lparr>m_index = 3\<rparr>)" by simp
  have h2: "sint (m_index \<lparr>m_index = 3\<rparr>) < int LENGTH(8)" by simp
  have ev:
    "set_index \<lparr>m_bitmask = 0x46 :: 8 word\<rparr> \<lparr>m_index = 3\<rparr> = Some \<lparr>m_bitmask = 0x4E\<rparr>"
    "reset_index \<lparr>m_bitmask = 0x4E :: 8 word\<rparr> \<lparr>m_index = 3\<rparr> = Some \<lparr>m_bitmask = 0x46\<rparr>"
    "flip_index \<lparr>m_bitmask = 0x46 :: 8 word\<rparr> \<lparr>m_index = 3\<rparr> = Some \<lparr>m_bitmask = 0x4E\<rparr>"
    by (simp_all add: set_index_def reset_index_def flip_index_def index2mask_def
        shift_left_def int_bits_def)
  from mutators_frame[OF h1 h2, of "\<lparr>m_bitmask = 0x46 :: 8 word\<rparr>"]
  have "\<exists>s. set_index \<lparr>m_bitmask = 0x46 :: 8 word\<rparr> \<lparr>m_index = 3\<rparr> = Some s
        \<and> bit (m_bitmask s) 3
        \<and> (\<forall>j. j \<noteq> 3 \<longrightarrow> bit (m_bitmask s) j = bit (0x46 :: 8 word) j)"
    by simp blast
  with h1 h2 ev show ?thesis by blast
qed

section \<open>The scan primitives find the extremal set bits\<close>

lemma takeWhile_first:
  assumes "\<exists>n < length xs. \<not> P (xs ! n)"
  shows "length (takeWhile P xs) < length xs"
    and "\<not> P (xs ! length (takeWhile P xs))"
    and "\<And>j. j < length (takeWhile P xs) \<Longrightarrow> P (xs ! j)"
proof -
  let ?k = "length (takeWhile P xs)"
  have "?k \<noteq> length xs"
  proof
    assume "?k = length xs"
    then have "takeWhile P xs = xs"
      using takeWhile_eq_take[of P xs] by simp
    then have "\<forall>x \<in> set xs. P x"
      by simp
    with assms show False
      by auto
  qed
  then show lt: "?k < length xs"
    using length_takeWhile_le[of P xs] by linarith
  then show "\<not> P (xs ! ?k)"
    by (rule nth_length_takeWhile)
  fix j
  assume j: "j < ?k"
  then have "takeWhile P xs ! j \<in> set (takeWhile P xs)"
    by (rule nth_mem)
  then have "P (takeWhile P xs ! j)"
    by (auto dest: set_takeWhileD)
  then show "P (xs ! j)"
    using j by (simp add: takeWhile_nth)
qed

lemma word_nonzero_bit:
  fixes m :: "'a::len word"
  assumes "m \<noteq> 0"
  shows "\<exists>n < LENGTH('a). bit m n"
proof -
  from assms obtain n where "bit m n"
    by (auto simp: bit_eq_iff)
  then show ?thesis
    by (auto dest: bit_imp_le_length)
qed

lemma ctz_lowest:
  fixes m :: "'a::len word"
  assumes "m \<noteq> 0"
  obtains k where "ctz m = Some (int k)" and "k < LENGTH('a)" and "bit m k"
    and "\<And>j. j < k \<Longrightarrow> \<not> bit m j"
proof -
  let ?xs = "map (bit m) [0..<LENGTH('a)]"
  let ?k = "length (takeWhile Not ?xs)"
  have ex: "\<exists>n < length ?xs. \<not> Not (?xs ! n)"
    using word_nonzero_bit[OF assms] by auto
  have lt: "?k < LENGTH('a)"
    using takeWhile_first(1)[OF ex] by simp
  have "\<not> Not (?xs ! ?k)"
    by (rule takeWhile_first(2)[OF ex])
  then have set: "bit m ?k"
    using lt by simp
  have low: "\<not> bit m j" if "j < ?k" for j
  proof -
    have "Not (?xs ! j)"
      using that by (rule takeWhile_first(3)[OF ex])
    then show ?thesis
      using that lt by simp
  qed
  show ?thesis
    using that[of ?k] assms lt set low by (simp add: ctz_def)
qed

lemma clz_highest:
  fixes m :: "'a::len word"
  assumes "m \<noteq> 0"
  obtains c where "clz m = Some (int c)" and "c < LENGTH('a)"
    and "bit m (LENGTH('a) - 1 - c)"
    and "\<And>j. LENGTH('a) - 1 - c < j \<Longrightarrow> \<not> bit m j"
proof -
  let ?N = "LENGTH('a)"
  let ?xs = "rev (map (bit m) [0..<?N])"
  let ?c = "length (takeWhile Not ?xs)"
  have nth: "?xs ! i = bit m (?N - 1 - i)" if "i < ?N" for i
    using that by (simp add: rev_nth)
  obtain n where n: "n < ?N" "bit m n"
    using word_nonzero_bit[OF assms] by blast
  have "?N - 1 - n < ?N" "?xs ! (?N - 1 - n) = bit m n"
    using n nth[of "?N - 1 - n"] by simp_all
  then have ex: "\<exists>i < length ?xs. \<not> Not (?xs ! i)"
    using n by (intro exI[of _ "?N - 1 - n"]) simp
  have lt: "?c < ?N"
    using takeWhile_first(1)[OF ex] by simp
  have "\<not> Not (?xs ! ?c)"
    by (rule takeWhile_first(2)[OF ex])
  then have set: "bit m (?N - 1 - ?c)"
    using lt nth by simp
  have high: "\<not> bit m j" if "?N - 1 - ?c < j" for j
  proof (cases "j < ?N")
    case True
    then have i: "?N - 1 - j < ?c"
      using that lt by linarith
    have "Not (?xs ! (?N - 1 - j))"
      using i by (rule takeWhile_first(3)[OF ex])
    moreover have "?xs ! (?N - 1 - j) = bit m j"
      using True nth[of "?N - 1 - j"] by simp
    ultimately show ?thesis
      by simp
  next
    case False
    then show ?thesis
      by (auto dest: bit_imp_le_length)
  qed
  show ?thesis
    using that[of ?c] assms lt set high by (simp add: clz_def)
qed

text \<open>Arithmetic on a word whose lowest set bit is at \<open>k\<close>.\<close>

lemma pred_lowest:
  fixes m :: "'a::len word"
  assumes "bit m k" and "\<And>j. j < k \<Longrightarrow> \<not> bit m j"
  shows "bit (m - 1) j \<longleftrightarrow> (j < k \<and> j < LENGTH('a)) \<or> (k < j \<and> bit m j)"
proof -
  define d where "d = m AND NOT (mask (Suc k))"
  have d: "bit d i \<longleftrightarrow> k < i \<and> bit m i" for i
    by (auto simp: d_def bit_and_iff bit_not_iff bit_mask_iff dest: bit_imp_le_length)
  have k: "k < LENGTH('a)"
    using assms(1) by (rule bit_imp_le_length)
  have p: "bit ((2 :: 'a word) ^ k) i \<longleftrightarrow> i = k" for i
    using k by (auto simp: bit_exp_iff)
  have m: "m = 2 ^ k OR d"
  proof (rule bit_word_eqI)
    fix i
    assume "i < LENGTH('a)"
    show "bit m i \<longleftrightarrow> bit (2 ^ k OR d) i"
      using assms by (cases i k rule: linorder_cases) (auto simp: bit_or_iff d p)
  qed
  have "2 ^ k + d = 2 ^ k OR d"
    by (rule disjunctive_add) (auto simp: d p)
  then have "m - 1 = (2 ^ k - 1) + d"
    using m by simp
  also have "\<dots> = mask k + d"
    by (simp add: mask_eq_exp_minus_1)
  also have "\<dots> = mask k OR d"
    by (rule disjunctive_add) (auto simp: d bit_mask_iff)
  finally have "m - 1 = mask k OR d" .
  then show ?thesis
    by (auto simp: bit_or_iff bit_mask_iff d)
qed

lemma clear_lowest:
  fixes m :: "'a::len word"
  assumes "bit m k" and "\<And>j. j < k \<Longrightarrow> \<not> bit m j"
  shows "bit (m AND (m - 1)) j \<longleftrightarrow> bit m j \<and> j \<noteq> k"
  using assms by (auto simp: bit_and_iff pred_lowest[OF assms])

lemma isolate_lowest:
  fixes m :: "'a::len word"
  assumes "bit m k" and "\<And>j. j < k \<Longrightarrow> \<not> bit m j"
  shows "m AND - m = 2 ^ k"
proof (rule bit_word_eqI)
  fix j
  assume "j < LENGTH('a)"
  then show "bit (m AND - m) j \<longleftrightarrow> bit ((2 :: 'a word) ^ k) j"
    using assms
    by (auto simp: minus_eq_not_minus_1 bit_and_iff bit_not_iff pred_lowest[OF assms] bit_simps
        dest: bit_imp_le_length)
qed

lemma sint_static_cast_int8:
  "- 128 \<le> v \<Longrightarrow> v \<le> 127 \<Longrightarrow> sint (static_cast_int8 v) = v"
  by (simp add: static_cast_int8_def sint_sbintrunc' signed_take_bit_int_eq_self)

lemma index_end_supported:
  assumes "LENGTH('a::len) \<in> {8, 16, 32, 64}"
  shows "index_end TYPE('a) = Some \<lparr>m_index = static_cast_int8 (int LENGTH('a))\<rparr>"
    and "sint (static_cast_int8 (int LENGTH('a))) = int LENGTH('a)"
  using assms by (auto simp add: index_end_def sizeof_def narrow_int8_def static_cast_int8_def)

lemma size_bits_supported:
  fixes b :: "'a::len BitSetPOD"
  assumes "LENGTH('a) \<in> {8, 16, 32, 64}"
  shows "size_bits b = LENGTH('a)"
  using assms by (auto simp: size_bits_def sizeof_def)

lemma shift_right_valid:
  fixes m :: "'a::len word"
  assumes "0 \<le> n" and "n < int LENGTH('a)"
  shows "shift_right m n = Some (drop_bit (nat n) m)"
  using assms by (simp add: shift_right_def)

lemma shift_left_valid:
  fixes m :: "'a::len word"
  assumes "LENGTH('a) \<in> {8, 16, 32, 64}" and "0 \<le> n" and "n \<le> int LENGTH('a)"
    and "n = int LENGTH('a) \<longrightarrow> LENGTH('a) < int_bits"
  shows "shift_left m n = Some (push_bit (nat n) m)"
proof -
  have cnt: "n < int (max int_bits LENGTH('a))"
    using assms(3,4) by (cases "n = int LENGTH('a)") auto
  have "int_bits \<le> LENGTH('a) \<or> uint m * 2 ^ nat n < 2 ^ int_bits"
  proof (cases "int_bits \<le> LENGTH('a)")
    case False
    then have N: "LENGTH('a) \<le> 16"
      using assms(1) by (auto simp: int_bits_def)
    have "uint m * 2 ^ nat n < 2 ^ LENGTH('a) * 2 ^ nat n"
      by (intro mult_strict_right_mono) simp_all
    also have "\<dots> = 2 ^ (LENGTH('a) + nat n)"
      by (simp add: power_add)
    also have "\<dots> \<le> (2 :: int) ^ int_bits"
      using N assms(2,3) by (intro power_increasing) (auto simp: int_bits_def)
    finally show ?thesis
      by simp
  qed simp
  then show ?thesis
    using cnt assms(2) by (simp add: shift_left_def)
qed

section \<open>Scanning for the next and the previous set bit\<close>

text \<open>
  At the widths 8, 16, 32 and 64: \<open>next_bit_in(m)\<close> on an index at pre-begin (\<open>-1\<close>) or
  at a valid position \<open>p\<close> moves it to the smallest set-bit position above the current
  one and below \<open>N\<close>, or to end (\<open>N\<close>) if there is none.
\<close>

lemma next_bit_in_correct:
  fixes m :: "'a::len word"
  assumes width: "LENGTH('a) \<in> {8, 16, 32, 64}"
    and lo: "- 1 \<le> sint (m_index idx)"
    and hi: "sint (m_index idx) < int LENGTH('a)"
  shows "\<exists>r. next_bit_in idx m = Some r
     \<and> sint (m_index idx) < sint (m_index r)
     \<and> sint (m_index r) \<le> int LENGTH('a)
     \<and> (sint (m_index r) < int LENGTH('a) \<longrightarrow> bit m (nat (sint (m_index r))))
     \<and> (\<forall>j. sint (m_index idx) < int j \<and> int j < sint (m_index r) \<longrightarrow> \<not> bit m j)"
proof -
  let ?N = "LENGTH('a)"
  let ?p = "sint (m_index idx)"
  let ?e = "static_cast_int8 (int ?N)"
  define i where "i = m_index idx + 1"
  have N: "int ?N \<le> 64"
    using width by auto
  note e = index_end_supported[OF width]
  have "i = static_cast_int8 (?p + 1)"
    by (simp add: i_def static_cast_int8_def)
  then have si: "sint i = ?p + 1"
    using lo hi N by (simp add: sint_static_cast_int8)
  show ?thesis
  proof (cases "i = ?e")
    case True
    then have "?p + 1 = int ?N"
      using si e(2) by simp
    moreover have "next_bit_in idx m = Some (idx\<lparr>m_index := i\<rparr>)"
      using True e(1) by (simp add: next_bit_in_def i_def Let_def)
    ultimately show ?thesis
      using si by auto
  next
    case False
    have "?p + 1 \<noteq> int ?N"
    proof
      assume "?p + 1 = int ?N"
      then have "sint i = sint ?e"
        using si e(2) by simp
      then have "i = ?e"
        by (rule signed_word_eqI)
      with False show False ..
    qed
    then have lt: "?p + 1 < int ?N"
      using hi by linarith
    define m' where "m' = drop_bit (nat (?p + 1)) m"
    have sh: "shift_right m (sint i) = Some m'"
      using lo lt by (simp add: si m'_def shift_right_valid)
    have bm: "bit m' j \<longleftrightarrow> bit m (nat (?p + 1) + j)" for j
      by (simp add: m'_def bit_drop_bit_eq)
    show ?thesis
    proof (cases "m' = 0")
      case True
      then have "next_bit_in idx m = Some (idx\<lparr>m_index := ?e\<rparr>)"
        using False e(1) sh by (simp add: next_bit_in_def i_def Let_def)
      moreover have "\<not> bit m j" if "?p < int j" for j
      proof -
        have "\<not> bit m' (j - nat (?p + 1))"
          using True by simp
        moreover have "nat (?p + 1) + (j - nat (?p + 1)) = j"
          using that lo by linarith
        ultimately show ?thesis
          by (simp add: bm)
      qed
      ultimately show ?thesis
        using e(2) hi by auto
    next
      case nz: False
      from ctz_lowest[OF nz] obtain c where c: "ctz m' = Some (int c)"
        "bit m' c" "\<And>j. j < c \<Longrightarrow> \<not> bit m' j"
        by blast
      let ?r = "?p + 1 + int c"
      have set: "bit m (nat ?r)"
        using c(2) lo by (simp add: bm nat_add_distrib)
      then have rN: "?r < int ?N"
        using bit_imp_le_length[of m "nat ?r"] lo by linarith
      have sr: "sint (static_cast_int8 ?r) = ?r"
        using rN N lo by (simp add: sint_static_cast_int8)
      have "next_bit_in idx m = Some (idx\<lparr>m_index := static_cast_int8 ?r\<rparr>)"
        using False nz e(1) sh c(1) si by (simp add: next_bit_in_def i_def Let_def)
      moreover have "\<not> bit m j" if "?p < int j" "int j < ?r" for j
      proof -
        have "j - nat (?p + 1) < c"
          using that lo by linarith
        then have "\<not> bit m' (j - nat (?p + 1))"
          by (rule c(3))
        moreover have "nat (?p + 1) + (j - nat (?p + 1)) = j"
          using that lo by linarith
        ultimately show ?thesis
          by (simp add: bm)
      qed
      ultimately show ?thesis
        using sr set rN lo by auto
    qed
  qed
qed

text \<open>
  Over \<open>0b01000110\<close> with \<open>N = 8\<close> the calls from pre-begin visit 1, 2, 6 and then end.
\<close>

lemma next_bit_in_scenario:
  "LENGTH(8) \<in> {8, 16, 32, 64 :: nat}
   \<and> - 1 \<le> sint (m_index index_pre_begin) \<and> sint (m_index index_pre_begin) < int LENGTH(8)
   \<and> next_bit_in index_pre_begin (0x46 :: 8 word) = Some \<lparr>m_index = 1\<rparr>
   \<and> next_bit_in \<lparr>m_index = 1\<rparr> (0x46 :: 8 word) = Some \<lparr>m_index = 2\<rparr>
   \<and> next_bit_in \<lparr>m_index = 2\<rparr> (0x46 :: 8 word) = Some \<lparr>m_index = 6\<rparr>
   \<and> next_bit_in \<lparr>m_index = 6\<rparr> (0x46 :: 8 word) = Some \<lparr>m_index = 8\<rparr>
   \<and> index_end TYPE(8) = Some \<lparr>m_index = 8\<rparr>
   \<and> (\<exists>r. next_bit_in index_pre_begin (0x46 :: 8 word) = Some r
         \<and> sint (m_index r) \<le> int LENGTH(8)
         \<and> (\<forall>j. sint (m_index index_pre_begin) < int j \<and> int j < sint (m_index r)
               \<longrightarrow> \<not> bit (0x46 :: 8 word) j))"
proof -
  have h: "LENGTH(8) \<in> {8, 16, 32, 64 :: nat}"
    "- 1 \<le> sint (m_index index_pre_begin)" "sint (m_index index_pre_begin) < int LENGTH(8)"
    by (simp_all add: index_pre_begin_def)
  have e: "index_end TYPE(8) = Some \<lparr>m_index = 8\<rparr>"
    by (simp add: index_end_def sizeof_def narrow_int8_def)
  have ev: "next_bit_in index_pre_begin (0x46 :: 8 word) = Some \<lparr>m_index = 1\<rparr>"
    "next_bit_in \<lparr>m_index = 1\<rparr> (0x46 :: 8 word) = Some \<lparr>m_index = 2\<rparr>"
    "next_bit_in \<lparr>m_index = 2\<rparr> (0x46 :: 8 word) = Some \<lparr>m_index = 6\<rparr>"
    "next_bit_in \<lparr>m_index = 6\<rparr> (0x46 :: 8 word) = Some \<lparr>m_index = 8\<rparr>"
    by (simp_all add: next_bit_in_def e index_pre_begin_def shift_right_def int_bits_def
        ctz_def static_cast_int8_def upt_rec drop_bit_eq_div)
  from next_bit_in_correct[OF h, of "0x46"]
  have "\<exists>r. next_bit_in index_pre_begin (0x46 :: 8 word) = Some r
         \<and> sint (m_index r) \<le> int LENGTH(8)
         \<and> (\<forall>j. sint (m_index index_pre_begin) < int j \<and> int j < sint (m_index r)
               \<longrightarrow> \<not> bit (0x46 :: 8 word) j)"
    by blast
  with h e ev show ?thesis by blast
qed

text \<open>
  C1. For every mask \<open>m\<close> of width \<open>N\<close>, \<open>next_bit_in(m)\<close> from pre-begin must land on
  the smallest set-bit position, or on end (\<open>N\<close>). At width 128 it does not: the
  constant \<open>N\<close> it starts from, \<open>index_end<T>\<close>, is a rejected initialisation, because
  the \<open>int8_t\<close> index cannot hold 128, so over the 128-bit mask \<open>0b01000110\<close> the call
  yields no index where position 1 is due.
\<close>

theorem next_bit_in_width_128:
  "index_end TYPE(128) = None
   \<and> next_bit_in index_pre_begin (0x46 :: 128 word) = None
   \<and> next_bit_in index_pre_begin (0x46 :: 128 word) \<noteq> Some \<lparr>m_index = 1\<rparr>"
  by (simp add: next_bit_in_def index_end_def sizeof_def narrow_int8_def)

text \<open>
  C2 (amended). For every mask \<open>m\<close> of width \<open>N\<close> in \<open>{8, 16, 32, 64}\<close>:
  \<open>prev_bit_in(m)\<close> on an index at a position in \<open>[1, N]\<close>, where
  \<open>may_call_prev_bit_in\<close> holds (position 0 as well when the mask type is narrower
  than \<open>int\<close>), moves it to the largest set-bit position strictly below the current one, or to
  pre-begin (\<open>-1\<close>) if there is none. Over \<open>0b01100010\<close> with \<open>N = 8\<close> the calls from
  end visit 6, 5, 1 and then pre-begin.
\<close>

theorem prev_bit_in_correct:
  fixes m :: "'a::len word"
  assumes width: "LENGTH('a) \<in> {8, 16, 32, 64}"
    and may: "may_call_prev_bit_in idx \<or> (sint (m_index idx) = 0 \<and> LENGTH('a) < int_bits)"
    and hi: "sint (m_index idx) \<le> int LENGTH('a)"
  shows "\<exists>r. prev_bit_in idx m = Some r
     \<and> - 1 \<le> sint (m_index r)
     \<and> sint (m_index r) < sint (m_index idx)
     \<and> (0 \<le> sint (m_index r) \<longrightarrow> bit m (nat (sint (m_index r))))
     \<and> (\<forall>j. sint (m_index r) < int j \<and> int j < sint (m_index idx) \<longrightarrow> \<not> bit m j)"
proof -
  let ?N = "LENGTH('a)"
  let ?p = "sint (m_index idx)"
  let ?e = "static_cast_int8 (int ?N)"
  define s where "s = nat (int ?N - ?p)"
  have lo: "1 \<le> ?p \<or> (?p = 0 \<and> LENGTH('a) < int_bits)"
    using may by (auto simp: may_call_prev_bit_in_def)
  have N: "int ?N \<le> 64"
    using width by auto
  have p0: "0 \<le> ?p"
    using lo by auto
  note e = index_end_supported[OF width]
  have s: "int s = int ?N - ?p" "s \<le> ?N"
    using hi p0 by (simp_all add: s_def)
  define m' where "m' = push_bit s m"
  have "shift_left m (int ?N - ?p) = Some (push_bit (nat (int ?N - ?p)) m)"
    using lo hi by (intro shift_left_valid[OF width]) auto
  then have sh: "shift_left m (sint ?e - ?p) = Some m'"
    by (simp add: e(2) m'_def s_def)
  have bm: "bit m' j \<longleftrightarrow> s \<le> j \<and> j < ?N \<and> bit m (j - s)" for j
    by (auto simp: m'_def bit_push_bit_iff)
  show ?thesis
  proof (cases "m' = 0")
    case True
    then have "prev_bit_in idx m = Some (idx\<lparr>m_index := - 1\<rparr>)"
      using e(1) sh by (simp add: prev_bit_in_def index_pre_begin_def)
    moreover have "\<not> bit m j" if "int j < ?p" for j
    proof -
      have "\<not> bit m' (j + s)"
        using True by simp
      moreover have "j + s < ?N"
        using that s(1) by linarith
      ultimately show ?thesis
        by (simp add: bm)
    qed
    ultimately show ?thesis
      using p0 by auto
  next
    case nz: False
    from clz_highest[OF nz] obtain c where c: "clz m' = Some (int c)" "c < ?N"
      "bit m' (?N - 1 - c)" "\<And>j. ?N - 1 - c < j \<Longrightarrow> \<not> bit m' j"
      by blast
    let ?r = "?p - (int c + 1)"
    from c(3) have h: "s \<le> ?N - 1 - c" "bit m (?N - 1 - c - s)"
      by (simp_all add: bm)
    have r: "int (?N - 1 - c - s) = ?r"
      using h(1) c(2) s(1) by linarith
    then have r0: "0 \<le> ?r"
      by linarith
    have set: "bit m (nat ?r)"
      using h(2) r by (metis nat_int)
    have sr: "sint (static_cast_int8 ?r) = ?r"
      using r0 hi N by (simp add: sint_static_cast_int8)
    have "prev_bit_in idx m = Some (idx\<lparr>m_index := static_cast_int8 ?r\<rparr>)"
      using nz e(1) sh c(1) by (simp add: prev_bit_in_def)
    moreover have "\<not> bit m j" if "?r < int j" "int j < ?p" for j
    proof -
      have "?N - 1 - c < j + s"
        using that r by linarith
      then have "\<not> bit m' (j + s)"
        by (rule c(4))
      moreover have "j + s < ?N"
        using that s(1) by linarith
      ultimately show ?thesis
        by (simp add: bm)
    qed
    ultimately show ?thesis
      using sr set r0 by auto
  qed
qed

theorem prev_bit_in_begin_undefined:
  "prev_bit_in index_begin (0x62 :: 32 word) = None
   \<and> prev_bit_in index_begin (0x62 :: 32 word) \<noteq> Some index_pre_begin"
  by (simp add: prev_bit_in_def index_begin_def index_end_def sizeof_def narrow_int8_def
      shift_left_def int_bits_def)

theorem prev_bit_in_correct_witness:
  "LENGTH(8) \<in> {8, 16, 32, 64 :: nat}
   \<and> (may_call_prev_bit_in \<lparr>m_index = 8\<rparr>
        \<or> (sint (m_index \<lparr>m_index = 8\<rparr>) = 0 \<and> LENGTH(8) < int_bits))
   \<and> sint (m_index \<lparr>m_index = 8\<rparr>) \<le> int LENGTH(8)
   \<and> index_end TYPE(8) = Some \<lparr>m_index = 8\<rparr>
   \<and> prev_bit_in \<lparr>m_index = 8\<rparr> (0x62 :: 8 word) = Some \<lparr>m_index = 6\<rparr>
   \<and> prev_bit_in \<lparr>m_index = 6\<rparr> (0x62 :: 8 word) = Some \<lparr>m_index = 5\<rparr>
   \<and> prev_bit_in \<lparr>m_index = 5\<rparr> (0x62 :: 8 word) = Some \<lparr>m_index = 1\<rparr>
   \<and> prev_bit_in \<lparr>m_index = 1\<rparr> (0x62 :: 8 word) = Some index_pre_begin
   \<and> (\<exists>r. prev_bit_in \<lparr>m_index = 8\<rparr> (0x62 :: 8 word) = Some r
         \<and> - 1 \<le> sint (m_index r)
         \<and> (\<forall>j. sint (m_index r) < int j \<and> int j < sint (m_index \<lparr>m_index = 8\<rparr>)
               \<longrightarrow> \<not> bit (0x62 :: 8 word) j))"
proof -
  have h: "LENGTH(8) \<in> {8, 16, 32, 64 :: nat}"
    "may_call_prev_bit_in \<lparr>m_index = 8\<rparr>
        \<or> (sint (m_index \<lparr>m_index = 8\<rparr>) = 0 \<and> LENGTH(8) < int_bits)"
    "sint (m_index \<lparr>m_index = 8\<rparr>) \<le> int LENGTH(8)"
    by (simp_all add: may_call_prev_bit_in_def)
  have e: "index_end TYPE(8) = Some \<lparr>m_index = 8\<rparr>"
    by (simp add: index_end_def sizeof_def narrow_int8_def)
  have ev: "prev_bit_in \<lparr>m_index = 8\<rparr> (0x62 :: 8 word) = Some \<lparr>m_index = 6\<rparr>"
    "prev_bit_in \<lparr>m_index = 6\<rparr> (0x62 :: 8 word) = Some \<lparr>m_index = 5\<rparr>"
    "prev_bit_in \<lparr>m_index = 5\<rparr> (0x62 :: 8 word) = Some \<lparr>m_index = 1\<rparr>"
    "prev_bit_in \<lparr>m_index = 1\<rparr> (0x62 :: 8 word) = Some index_pre_begin"
    by (simp_all add: prev_bit_in_def e index_pre_begin_def shift_left_def int_bits_def
        clz_def static_cast_int8_def upt_rec push_bit_eq_mult)
  from prev_bit_in_correct[OF h, of "0x62"]
  have "\<exists>r. prev_bit_in \<lparr>m_index = 8\<rparr> (0x62 :: 8 word) = Some r
         \<and> - 1 \<le> sint (m_index r)
         \<and> (\<forall>j. sint (m_index r) < int j \<and> int j < sint (m_index \<lparr>m_index = 8\<rparr>)
               \<longrightarrow> \<not> bit (0x62 :: 8 word) j)"
    by blast
  with h e ev show ?thesis by blast
qed

section \<open>Least significant set bit\<close>

text \<open>
  The value that \<open>lssb()\<close> computes, \<open>m & -m\<close>, is \<open>index2mask\<close> of the index returned
  by \<open>lssbi\<close> for every nonzero mask \<open>m\<close> at every width up to 128; for \<open>m = 0\<close>,
  \<open>lssbi\<close> returns the end sentinel \<open>N\<close> at the widths 8, 16, 32 and 64.
\<close>

lemma lssbi_index2mask:
  fixes b :: "'a::len BitSetPOD"
  assumes "LENGTH('a) \<le> 128"
  shows "(m_bitmask b \<noteq> 0 \<longrightarrow>
           (\<exists>i. lssbi b = Some i \<and> index2mask i = Some (m_bitmask b AND - m_bitmask b)))
       \<and> (m_bitmask b = 0 \<and> LENGTH('a) \<in> {8, 16, 32, 64} \<longrightarrow>
           lssbi b = index_end TYPE('a)
           \<and> (\<exists>i. lssbi b = Some i \<and> sint (m_index i) = int LENGTH('a)))"
proof (intro conjI impI)
  assume nz: "m_bitmask b \<noteq> 0"
  from ctz_lowest[OF nz] obtain k where k: "ctz (m_bitmask b) = Some (int k)"
    "k < LENGTH('a)" "bit (m_bitmask b) k" "\<And>j. j < k \<Longrightarrow> \<not> bit (m_bitmask b) j"
    by blast
  let ?i = "\<lparr>m_index = static_cast_int8 (int k)\<rparr>"
  have "int k \<le> 127"
    using k(2) assms by linarith
  then have s: "sint (m_index ?i) = int k"
    by (simp add: sint_static_cast_int8)
  have "lssbi b = Some ?i"
    using nz k(1) by (simp add: lssbi_def)
  moreover have "(index2mask ?i :: 'a word option) = Some (2 ^ k)"
    using index2mask_valid[of ?i, where ?'a = 'a] k(2) s by simp
  moreover have "m_bitmask b AND - m_bitmask b = 2 ^ k"
    by (rule isolate_lowest[OF k(3,4)])
  ultimately show "\<exists>i. lssbi b = Some i \<and> index2mask i = Some (m_bitmask b AND - m_bitmask b)"
    by simp
next
  assume "m_bitmask b = 0 \<and> LENGTH('a) \<in> {8, 16, 32, 64}"
  then have z: "m_bitmask b = 0" and width: "LENGTH('a) \<in> {8, 16, 32, 64}"
    by simp_all
  have l: "lssbi b = Some \<lparr>m_index = static_cast_int8 (int LENGTH('a))\<rparr>"
    using z by (simp add: lssbi_def size_bits_supported[OF width])
  then show "lssbi b = index_end TYPE('a)"
    by (simp add: index_end_supported(1)[OF width])
  show "\<exists>i. lssbi b = Some i \<and> sint (m_index i) = int LENGTH('a)"
    using l index_end_supported(2)[OF width] by simp
qed

text \<open>
  C6. For every nonzero mask \<open>m\<close>, \<open>index2mask\<close> of the index returned by \<open>lssbi\<close> must
  be the mask of \<open>lssb()\<close>, and for \<open>m = 0\<close> \<open>lssbi\<close> must return the end sentinel \<open>N\<close>.
  The round trip has no \<open>lssb()\<close> to compare with: its \<open>return {...}\<close> is a rejected
  initialisation at every width, here on the 32-bit mask \<open>0b01000110\<close>, whose \<open>lssbi\<close>
  is 1 and \<open>index2mask\<close> of that is 2. On the 128-bit zero mask \<open>lssbi\<close> returns
  \<open>-128\<close>, not 128, and width 128 has no end sentinel.
\<close>

theorem lssb_ill_formed:
  "lssb \<lparr>m_bitmask = 0x46 :: 32 word\<rparr> = None
   \<and> lssbi \<lparr>m_bitmask = 0x46 :: 32 word\<rparr> = Some \<lparr>m_index = 1\<rparr>
   \<and> (index2mask \<lparr>m_index = 1\<rparr> :: 32 word option) = Some 2
   \<and> (\<exists>i. lssbi \<lparr>m_bitmask = 0 :: 128 word\<rparr> = Some i \<and> sint (m_index i) = - 128)
   \<and> index_end TYPE(128) = None"
  by (simp add: lssb_def copy_list_init_def mask_constructor_explicit_def lssbi_def ctz_def
      index2mask_def shift_left_def int_bits_def static_cast_int8_def size_bits_def sizeof_def
      index_end_def narrow_int8_def upt_rec)

section \<open>The width of the index\<close>

lemma index_positions_fit:
  assumes "LENGTH('a::len) \<in> {8, 16, 32, 64}" and "- 1 \<le> p" and "p \<le> int LENGTH('a)"
  shows "sint (static_cast_int8 p) = p"
    and "\<exists>e. index_end TYPE('a) = Some e \<and> sint (m_index e) = int (8 * sizeof TYPE('a))
          \<and> 8 * sizeof TYPE('a) = LENGTH('a)"
proof -
  have "p \<le> 64"
    using assms by auto
  then show "sint (static_cast_int8 p) = p"
    using assms(2) by (simp add: sint_static_cast_int8)
  show "\<exists>e. index_end TYPE('a) = Some e \<and> sint (m_index e) = int (8 * sizeof TYPE('a))
          \<and> 8 * sizeof TYPE('a) = LENGTH('a)"
    using index_end_supported[OF assms(1)] assms(1) by (auto simp: sizeof_def)
qed


text \<open>
  C7. A BitIndex must hold every position in \<open>{-1} \<union> [0, N) \<union> {N}\<close> for each width
  \<open>N\<close> in \<open>{8, 16, 32, 64, 128}\<close>, and \<open>index_end<T>\<close> must store \<open>N = 8 * sizeof(T)\<close>.
  For \<open>N = 128\<close> this fails: the initialiser of \<open>index_end<T>\<close> is a narrowing
  conversion, a cast of 128 to the storage type reads \<open>-128\<close>, and no value of the
  storage type reads 128.
\<close>

theorem index_end_128_ill_formed:
  "index_end TYPE(128) = None
   \<and> sint (static_cast_int8 (int (8 * sizeof TYPE(128)))) = - 128
   \<and> \<not> (\<exists>w :: int8_t. sint w = int (8 * sizeof TYPE(128)))"
proof -
  have "sint w \<noteq> 128" for w :: int8_t
    using sint_index_bounds[of w] by linarith
  then show ?thesis
    by (simp add: index_end_def sizeof_def narrow_int8_def static_cast_int8_def)
qed


section \<open>Most significant set bit\<close>






section \<open>Population count and the query predicates\<close>

lemma set_bits_Nil:
  "filter (bit (0 :: 'a::len word)) [0..<LENGTH('a)] = []"
  by (simp add: filter_empty_conv)

lemma set_bits_Cons:
  fixes m :: "'a::len word"
  assumes "bit m k" and "\<And>j. j < k \<Longrightarrow> \<not> bit m j"
  shows "filter (bit m) [0..<LENGTH('a)] = k # filter (bit (m AND (m - 1))) [0..<LENGTH('a)]"
proof -
  let ?N = "LENGTH('a)"
  let ?m' = "m AND (m - 1)"
  note cl = clear_lowest[OF assms]
  have k: "k < ?N"
    using assms(1) by (rule bit_imp_le_length)
  have "[0..<?N] = [0..<k] @ [k..<k + (?N - k)]"
    using k upt_add_eq_append[of 0 k "?N - k"] by simp
  then have split: "[0..<?N] = [0..<k] @ k # [Suc k..<?N]"
    using k by (simp add: upt_conv_Cons)
  have low: "filter (bit m) [0..<k] = []" "filter (bit ?m') [0..<k] = []"
    using assms(2) by (auto simp: filter_empty_conv cl)
  have high: "filter (bit ?m') [Suc k..<?N] = filter (bit m) [Suc k..<?N]"
    by (rule filter_cong) (auto simp: cl)
  have "filter (bit m) [0..<?N] = k # filter (bit m) [Suc k..<?N]"
    using assms(1) low(1) by (subst split) simp
  moreover have "filter (bit ?m') [0..<?N] = filter (bit ?m') [Suc k..<?N]"
    using low(2) by (subst split) (simp add: cl)
  ultimately show ?thesis
    using high by simp
qed

lemma popcount_zero_iff:
  fixes m :: "'a::len word"
  shows "popcount m = 0 \<longleftrightarrow> m = 0"
proof
  assume "popcount m = 0"
  then have "\<forall>i < LENGTH('a). \<not> bit m i"
    by (auto simp: popcount_def filter_empty_conv)
  then show "m = 0"
    by (intro bit_word_eqI) simp
next
  assume "m = 0"
  then show "popcount m = 0"
    by (simp add: popcount_def set_bits_Nil)
qed

lemma popcount_clear_lowest:
  fixes m :: "'a::len word"
  assumes "m \<noteq> 0"
  shows "popcount m = Suc (popcount (m AND (m - 1)))"
proof -
  from ctz_lowest[OF assms] obtain k where "bit m k" "\<And>j. j < k \<Longrightarrow> \<not> bit m j"
    by blast
  then show ?thesis
    by (simp add: popcount_def set_bits_Cons)
qed

lemma popcount_full_iff:
  fixes m :: "'a::len word"
  shows "popcount m = LENGTH('a) \<longleftrightarrow> NOT m = 0"
proof -
  let ?xs = "[0..<LENGTH('a)]"
  have "length (filter (bit m) ?xs) + length (filter (\<lambda>i. \<not> bit m i) ?xs) = length ?xs"
    by (rule sum_length_filter_compl)
  then have "popcount m = LENGTH('a) \<longleftrightarrow> filter (\<lambda>i. \<not> bit m i) ?xs = []"
    by (auto simp: popcount_def)
  also have "\<dots> \<longleftrightarrow> (\<forall>i < LENGTH('a). bit m i)"
    by (auto simp: filter_empty_conv)
  also have "\<dots> \<longleftrightarrow> NOT m = 0"
    by (auto simp: bit_eq_iff bit_not_iff)
  finally show ?thesis .
qed

lemma none_iff_count: "none b \<longleftrightarrow> count b = 0"
  by (simp add: none_def count_def popcount_zero_iff)

lemma any_iff_not_none: "any b \<longleftrightarrow> \<not> none b"
  by (simp add: any_def none_def)

lemma is_single_bit_iff_count: "is_single_bit b \<longleftrightarrow> count b = 1"
proof (cases "m_bitmask b = 0")
  case True
  then show ?thesis
    by (simp add: is_single_bit_def is_power_of_two_def count_def popcount_zero_iff[THEN iffD2])
next
  case False
  then show ?thesis
    by (simp add: is_single_bit_def is_power_of_two_def count_def popcount_clear_lowest
        popcount_zero_iff)
qed

lemma all_iff_count_wide:
  fixes b :: "'a::len BitSetPOD"
  assumes "int_bits \<le> LENGTH('a)" and "8 dvd LENGTH('a)"
  shows "all b \<longleftrightarrow> count b = size_bits b"
  using assms by (auto simp: all_def count_def size_bits_def sizeof_def popcount_full_iff)

lemma all_narrow_never:
  fixes b :: "'a::len BitSetPOD"
  assumes "LENGTH('a) < int_bits"
  shows "\<not> all b"
proof -
  have "NOT (uint (m_bitmask b)) < 0"
    by simp
  then have "NOT (uint (m_bitmask b)) \<noteq> 0"
    by linarith
  then show ?thesis
    using assms by (simp add: all_def)
qed


text \<open>
  C8. \<open>all()\<close> must be true exactly when \<open>count() == N\<close>. On an 8-bit BitSet with all
  eight bits set \<open>count()\<close> is 8, the size, and yet \<open>all()\<close> is false.
\<close>

theorem all_false_on_full_uint8:
  "\<not> all \<lparr>m_bitmask = 0xFF :: 8 word\<rparr>
   \<and> count \<lparr>m_bitmask = 0xFF :: 8 word\<rparr> = 8
   \<and> size_bits \<lparr>m_bitmask = 0xFF :: 8 word\<rparr> = 8"
  by (simp add: all_def int_bits_def count_def popcount_def size_bits_def sizeof_def upt_rec)

section \<open>Iteration\<close>

lemma iterate_eq:
  fixes it :: "'a::len const_iterator"
  shows "iterate it
    = map (\<lambda>k. \<lparr>m_bitmask = 2 ^ k\<rparr>) (filter (bit (m_mask it)) [0..<LENGTH('a)])"
proof (induction it rule: iterate.induct)
  case (1 it)
  show ?case
  proof (cases "m_mask it = 0")
    case True
    then show ?thesis
      using iterate.simps[of it] by (simp add: iter_ne_def set_bits_Nil)
  next
    case False
    from ctz_lowest[OF False] obtain k where k: "bit (m_mask it) k"
      "\<And>j. j < k \<Longrightarrow> \<not> bit (m_mask it) j"
      by blast
    have ne: "iter_ne it \<lparr>m_mask = 0\<rparr>"
      using False by (simp add: iter_ne_def)
    have "iterate it = iter_deref it # iterate (iter_incr it)"
      using ne iterate.simps[of it] by simp
    also have "iter_deref it = \<lparr>m_bitmask = 2 ^ k\<rparr>"
      by (simp add: iter_deref_def isolate_lowest[OF k])
    also have "iterate (iter_incr it)
        = map (\<lambda>k. \<lparr>m_bitmask = 2 ^ k\<rparr>)
            (filter (bit (m_mask it AND (m_mask it - 1))) [0..<LENGTH('a)])"
      using 1[OF ne] by (simp add: iter_incr_def)
    finally show ?thesis
      by (simp add: set_bits_Cons[OF k])
  qed
qed

lemma bit_fold_or_assign:
  fixes acc :: "'a::len BitSetPOD"
  shows "bit (m_bitmask (fold (\<lambda>x a. or_assign a x) (map (\<lambda>k. \<lparr>m_bitmask = 2 ^ k\<rparr>) ks) acc)) j
    \<longleftrightarrow> bit (m_bitmask acc) j \<or> (j \<in> set ks \<and> j < LENGTH('a))"
  by (induction ks arbitrary: acc) (auto simp: or_assign_def bit_or_iff bit_exp_iff)

lemma iter_incr_bits:
  fixes it :: "'a::len const_iterator"
  shows "bit (m_mask (iter_incr it)) j
    \<longleftrightarrow> bit (m_mask it) j \<and> (\<exists>i<j. bit (m_mask it) i)"
proof (cases "m_mask it = 0")
  case True
  then show ?thesis
    by (simp add: iter_incr_def)
next
  case False
  from ctz_lowest[OF False] obtain k where k: "bit (m_mask it) k"
    "\<And>j. j < k \<Longrightarrow> \<not> bit (m_mask it) j"
    by blast
  have "bit (m_mask it) j \<and> j \<noteq> k \<longleftrightarrow> bit (m_mask it) j \<and> (\<exists>i<j. bit (m_mask it) i)"
  proof (cases j k rule: linorder_cases)
    case less
    then show ?thesis using k(2) by auto
  next
    case equal
    then show ?thesis using k(2) by auto
  next
    case greater
    then show ?thesis using k(1) by auto
  qed
  then show ?thesis
    by (simp add: iter_incr_def clear_lowest[OF k])
qed


text \<open>
  C3. Iterating a BitSet with mask \<open>m\<close> from \<open>begin()\<close> to \<open>end()\<close> yields the
  single-bit values \<open>2^k\<close> for the set positions \<open>k\<close> of \<open>m\<close> in strictly increasing
  order, \<open>count(m)\<close> of them; OR-ing them together gives back the BitSet; an increment
  keeps exactly the set bits of the residual mask that have a set bit below them
  (it clears the lowest one); iterators are equal exactly when their residual masks
  are, and the end iterator is the one with residual mask 0.
\<close>

theorem iteration_correct:
  fixes b :: "'a::len BitSetPOD"
  shows "(\<exists>ks. elements b = map (\<lambda>k. \<lparr>m_bitmask = 2 ^ k\<rparr>) ks
           \<and> sorted_wrt (<) ks \<and> set ks = {k. bit (m_bitmask b) k} \<and> length ks = count b)
     \<and> fold (\<lambda>x acc. or_assign acc x) (elements b) \<lparr>m_bitmask = 0\<rparr> = b
     \<and> (\<forall>(it :: 'a const_iterator) j.
           bit (m_mask (iter_incr it)) j \<longleftrightarrow> bit (m_mask it) j \<and> (\<exists>i<j. bit (m_mask it) i))
     \<and> (\<forall>it1 it2 :: 'a const_iterator. iter_eq it1 it2 \<longleftrightarrow> m_mask it1 = m_mask it2)
     \<and> (\<forall>it :: 'a const_iterator. iter_eq it (end_iter b) \<longleftrightarrow> m_mask it = 0)"
proof (intro conjI)
  let ?ks = "filter (bit (m_bitmask b)) [0..<LENGTH('a)]"
  have el: "elements b = map (\<lambda>k. \<lparr>m_bitmask = 2 ^ k\<rparr>) ?ks"
    by (simp add: elements_def begin_iter_def iterate_eq)
  have "sorted_wrt (<) ?ks"
    by (simp add: sorted_wrt_filter)
  moreover have "set ?ks = {k. bit (m_bitmask b) k}"
    by (auto dest: bit_imp_le_length)
  moreover have "length ?ks = count b"
    by (simp add: count_def popcount_def)
  ultimately show "\<exists>ks. elements b = map (\<lambda>k. \<lparr>m_bitmask = 2 ^ k\<rparr>) ks
           \<and> sorted_wrt (<) ks \<and> set ks = {k. bit (m_bitmask b) k} \<and> length ks = count b"
    using el by blast
  have "m_bitmask (fold (\<lambda>x acc. or_assign acc x) (elements b) \<lparr>m_bitmask = 0\<rparr>) = m_bitmask b"
    by (rule bit_word_eqI) (simp add: el bit_fold_or_assign)
  then show "fold (\<lambda>x acc. or_assign acc x) (elements b) \<lparr>m_bitmask = 0\<rparr> = b"
    by simp
  show "\<forall>(it :: 'a const_iterator) j.
           bit (m_mask (iter_incr it)) j \<longleftrightarrow> bit (m_mask it) j \<and> (\<exists>i<j. bit (m_mask it) i)"
    by (simp add: iter_incr_bits)
  show "\<forall>it1 it2 :: 'a const_iterator. iter_eq it1 it2 \<longleftrightarrow> m_mask it1 = m_mask it2"
    by (simp add: iter_eq_def)
  show "\<forall>it :: 'a const_iterator. iter_eq it (end_iter b) \<longleftrightarrow> m_mask it = 0"
    by (simp add: iter_eq_def end_iter_def)
qed

theorem iteration_correct_witness:
  "elements \<lparr>m_bitmask = 0x46 :: 8 word\<rparr> = [\<lparr>m_bitmask = 2\<rparr>, \<lparr>m_bitmask = 4\<rparr>, \<lparr>m_bitmask = 64\<rparr>]
   \<and> count \<lparr>m_bitmask = 0x46 :: 8 word\<rparr> = 3
   \<and> fold (\<lambda>x acc. or_assign acc x) (elements \<lparr>m_bitmask = 0x46 :: 8 word\<rparr>) \<lparr>m_bitmask = 0\<rparr>
       = \<lparr>m_bitmask = 0x46\<rparr>
   \<and> iter_incr \<lparr>m_mask = 0x46 :: 8 word\<rparr> = \<lparr>m_mask = 0x44\<rparr>
   \<and> (bit (m_mask (iter_incr \<lparr>m_mask = 0x46 :: 8 word\<rparr>)) 2
        \<longleftrightarrow> bit (m_mask \<lparr>m_mask = 0x46 :: 8 word\<rparr>) 2
            \<and> (\<exists>i<2. bit (m_mask \<lparr>m_mask = 0x46 :: 8 word\<rparr>) i))"
proof -
  have ev: "elements \<lparr>m_bitmask = 0x46 :: 8 word\<rparr>
      = [\<lparr>m_bitmask = 2\<rparr>, \<lparr>m_bitmask = 4\<rparr>, \<lparr>m_bitmask = 64\<rparr>]"
    by (simp add: elements_def begin_iter_def iterate.simps iter_ne_def iter_incr_def
        iter_deref_def)
  have c: "count \<lparr>m_bitmask = 0x46 :: 8 word\<rparr> = 3"
    by (simp add: count_def popcount_def upt_rec)
  have i: "iter_incr \<lparr>m_mask = 0x46 :: 8 word\<rparr> = \<lparr>m_mask = 0x44\<rparr>"
    by (simp add: iter_incr_def)
  note t = iteration_correct[of "\<lparr>m_bitmask = 0x46 :: 8 word\<rparr>"]
  from t have "fold (\<lambda>x acc. or_assign acc x) (elements \<lparr>m_bitmask = 0x46 :: 8 word\<rparr>)
      \<lparr>m_bitmask = 0\<rparr> = \<lparr>m_bitmask = 0x46\<rparr>"
    by blast
  moreover from t have "bit (m_mask (iter_incr \<lparr>m_mask = 0x46 :: 8 word\<rparr>)) 2
        \<longleftrightarrow> bit (m_mask \<lparr>m_mask = 0x46 :: 8 word\<rparr>) 2
            \<and> (\<exists>i<2. bit (m_mask \<lparr>m_mask = 0x46 :: 8 word\<rparr>) i)"
    by blast
  ultimately show ?thesis
    using ev c i by blast
qed

section \<open>String conversion\<close>

lemma sint_pred_int8:
  fixes w :: int8_t
  assumes "0 < sint w"
  shows "sint (w - 1) = sint w - 1"
proof -
  have "w - 1 = static_cast_int8 (sint w - 1)"
    by (simp add: static_cast_int8_def)
  then show ?thesis
    using assms sint_index_bounds[of w] by (simp add: sint_static_cast_int8)
qed

lemma test_index_valid:
  fixes b :: "'a::len BitSetPOD"
  assumes "0 \<le> sint (m_index i1)" and "sint (m_index i1) < int LENGTH('a)"
  shows "test_index b i1 = Some (bit (m_bitmask b) (nat (sint (m_index i1))))"
proof -
  let ?n = "nat (sint (m_index i1))"
  have "(m_bitmask b AND 2 ^ ?n \<noteq> 0) \<longleftrightarrow> bit (m_bitmask b) ?n"
    using bit_iff_and_push_bit_not_eq_0[of "m_bitmask b" ?n] by simp
  then show ?thesis
    using index2mask_valid[OF assms] by (simp add: test_index_def)
qed

lemma to_string_loop_correct:
  fixes b :: "'a::len BitSetPOD"
  assumes "sint (m_index bit_idx) = int n" and "0 < n" and "n \<le> LENGTH('a)"
    and "p + n = length result"
  shows "to_string_loop b zero one result p bit_idx
    = Some (take p result @ map (\<lambda>i. if bit (m_bitmask b) i then one else zero) (rev [0..<n]))"
  using assms
proof (induction n arbitrary: result p bit_idx)
  case 0
  then show ?case by simp
next
  case (Suc n)
  let ?f = "\<lambda>i. if bit (m_bitmask b) i then one else zero"
  let ?bit' = "bit_idx\<lparr>m_index := m_index bit_idx - 1\<rparr>"
  let ?result' = "result[p := ?f n]"
  have s: "sint (m_index bit_idx - 1) = int n"
    using Suc.prems(1) sint_pred_int8[of "m_index bit_idx"] by simp
  have "test_index b ?bit' = Some (bit (m_bitmask b) (nat (sint (m_index ?bit'))))"
    using s Suc.prems(3) by (intro test_index_valid) simp_all
  then have t: "test_index b ?bit' = Some (bit (m_bitmask b) n)"
    by (simp add: s)
  have p: "p < length result"
    using Suc.prems(4) by simp
  have r': "?result' = take p result @ ?f n # drop (Suc p) result"
    using p by (simp add: upd_conv_take_nth_drop)
  have tk: "take (Suc p) ?result' = take p result @ [?f n]"
    using p by (simp add: r')
  have unfold: "to_string_loop b zero one result p bit_idx
      = (if ?bit' \<noteq> index_begin then to_string_loop b zero one ?result' (p + 1) ?bit'
         else Some ?result')"
    using t p by (subst to_string_loop.simps) (simp add: Let_def)
  show ?case
  proof (cases "n = 0")
    case True
    then have "m_index bit_idx - 1 = 0"
      using s by (intro signed_word_eqI) simp
    then have "?bit' = index_begin"
      by (simp add: index_begin_def)
    moreover have "drop (Suc p) result = []"
      using True Suc.prems(4) by simp
    ultimately show ?thesis
      using True unfold r' by simp
  next
    case False
    then have "m_index bit_idx - 1 \<noteq> 0"
      using s by auto
    then have ne: "?bit' \<noteq> index_begin"
      by (cases bit_idx) (auto simp: index_begin_def)
    have "to_string_loop b zero one ?result' (p + 1) ?bit'
        = Some (take (p + 1) ?result' @ map ?f (rev [0..<n]))"
      using False Suc.prems s by (intro Suc.IH) simp_all
    then show ?thesis
      using unfold ne tk by simp
  qed
qed

lemma to_string_eq:
  fixes b :: "'a::len BitSetPOD"
  assumes "LENGTH('a) \<in> {8, 16, 32, 64}"
  shows "to_string b zero one
    = Some (map (\<lambda>i. if bit (m_bitmask b) i then one else zero) (rev [0..<LENGTH('a)]))"
proof -
  let ?e = "\<lparr>m_index = static_cast_int8 (int LENGTH('a))\<rparr>"
  note e = index_end_supported[OF assms]
  have "to_string_loop b zero one (replicate (size_bits b) zero) 0 ?e
      = Some (take 0 (replicate (size_bits b) zero)
          @ map (\<lambda>i. if bit (m_bitmask b) i then one else zero) (rev [0..<LENGTH('a)]))"
    using e(2) by (intro to_string_loop_correct) (simp_all add: size_bits_supported[OF assms])
  then show ?thesis
    by (simp add: to_string_def e(1))
qed


text \<open>
  At the widths 8, 16, 32 and 64, for all characters \<open>zero\<close> and \<open>one\<close>: \<open>to_string\<close>
  returns \<open>N\<close> characters, character \<open>i\<close> from the left being \<open>one\<close> if bit
  \<open>N - 1 - i\<close> is set and \<open>zero\<close> otherwise; with the default characters the
  number of \<open>'1'\<close> characters is \<open>count()\<close>.
\<close>

lemma to_string_correct:
  fixes b :: "'a::len BitSetPOD"
  assumes "LENGTH('a) \<in> {8, 16, 32, 64}"
  shows "(\<exists>s. to_string b zero one = Some s \<and> length s = LENGTH('a)
       \<and> (\<forall>i < LENGTH('a).
             s ! i = (if bit (m_bitmask b) (LENGTH('a) - 1 - i) then one else zero))
       \<and> (zero \<noteq> one \<longrightarrow> length (filter (\<lambda>c. c = one) s) = count b))
     \<and> (\<exists>s. to_string b CHR ''0'' CHR ''1'' = Some s
       \<and> length (filter (\<lambda>c. c = CHR ''1'') s) = count b)"
proof -
  let ?N = "LENGTH('a)"
  have main: "\<exists>s. to_string b zc oc = Some s \<and> length s = ?N
       \<and> (\<forall>i < ?N. s ! i = (if bit (m_bitmask b) (?N - 1 - i) then oc else zc))
       \<and> (zc \<noteq> oc \<longrightarrow> length (filter (\<lambda>c. c = oc) s) = count b)" for zc oc :: char
  proof -
    let ?f = "\<lambda>i. if bit (m_bitmask b) i then oc else zc"
    let ?s = "map ?f (rev [0..<?N])"
    have "?s ! i = ?f (?N - 1 - i)" if "i < ?N" for i
      using that by (simp add: rev_nth)
    moreover have "length (filter (\<lambda>c. c = oc) ?s) = count b" if "zc \<noteq> oc"
    proof -
      have "filter ((\<lambda>c. c = oc) \<circ> ?f) (rev [0..<?N]) = filter (bit (m_bitmask b)) (rev [0..<?N])"
        using that by (intro filter_cong) auto
      then have "length (filter (\<lambda>c. c = oc) ?s) = length (filter (bit (m_bitmask b)) (rev [0..<?N]))"
        by (simp add: filter_map)
      also have "\<dots> = length (rev (filter (bit (m_bitmask b)) [0..<?N]))"
        by (simp only: rev_filter)
      finally show ?thesis
        by (simp add: count_def popcount_def)
    qed
    ultimately show ?thesis
      using to_string_eq[OF assms, of b zc oc] by simp
  qed
  from main[of "CHR ''0''" "CHR ''1''"]
  have "\<exists>s. to_string b CHR ''0'' CHR ''1'' = Some s
       \<and> length (filter (\<lambda>c. c = CHR ''1'') s) = count b"
    by auto
  with main[of zero one] show ?thesis
    by blast
qed

lemma to_string_scenario:
  "LENGTH(8) \<in> {8, 16, 32, 64 :: nat}
   \<and> to_string \<lparr>m_bitmask = 0x46 :: 8 word\<rparr> CHR ''0'' CHR ''1'' = Some ''01000110''
   \<and> count \<lparr>m_bitmask = 0x46 :: 8 word\<rparr> = 3
   \<and> (\<exists>s. to_string \<lparr>m_bitmask = 0x46 :: 8 word\<rparr> CHR ''0'' CHR ''1'' = Some s
         \<and> length (filter (\<lambda>c. c = CHR ''1'') s) = count \<lparr>m_bitmask = 0x46 :: 8 word\<rparr>)"
proof -
  have h: "LENGTH(8) \<in> {8, 16, 32, 64 :: nat}" by simp
  have r8: "replicate 8 c = [c, c, c, c, c, c, c, c]" for c :: char
    by (simp add: numeral_eq_Suc)
  have ev: "to_string \<lparr>m_bitmask = 0x46 :: 8 word\<rparr> CHR ''0'' CHR ''1'' = Some ''01000110''"
    by (simp add: to_string_def index_end_def sizeof_def narrow_int8_def size_bits_def
        to_string_loop.simps test_index_def index2mask_def shift_left_def int_bits_def
        index_begin_def Let_def r8)
  have c: "count \<lparr>m_bitmask = 0x46 :: 8 word\<rparr> = 3"
    by (simp add: count_def popcount_def upt_rec)
  from to_string_correct[OF h, of "\<lparr>m_bitmask = 0x46\<rparr>"]
  have "\<exists>s. to_string \<lparr>m_bitmask = 0x46 :: 8 word\<rparr> CHR ''0'' CHR ''1'' = Some s
         \<and> length (filter (\<lambda>c. c = CHR ''1'') s) = count \<lparr>m_bitmask = 0x46 :: 8 word\<rparr>"
    by blast
  with h ev c show ?thesis by blast
qed

text \<open>
  C9. For every BitSet of width \<open>N\<close>, \<open>to_string\<close> must produce \<open>N\<close> characters, most
  significant bit first. At width 128 it does not: its index starts from
  \<open>index_end<T>\<close>, a rejected initialisation because the \<open>int8_t\<close> index cannot hold
  128, so the 128-bit BitSet \<open>0b01000110\<close> has no string.
\<close>

theorem to_string_width_128:
  "index_end TYPE(128) = None
   \<and> to_string \<lparr>m_bitmask = 0x46 :: 128 word\<rparr> CHR ''0'' CHR ''1'' = None
   \<and> size_bits \<lparr>m_bitmask = 0x46 :: 128 word\<rparr> = 128"
  by (simp add: to_string_def index_end_def sizeof_def narrow_int8_def size_bits_def)

end
